theory Spec2Isabelle
  imports Main "HOL-Library.Multiset"
begin

section \<open>Python dictionaries\<close>

text \<open>
  A Python \<^verbatim>\<open>dict\<close> keeps its keys in insertion order, and both
  \<^verbatim>\<open>shared_views_by_frame.values()\<close> and \<^verbatim>\<open>views_by_camera.items()\<close> iterate in
  that order. A dictionary is therefore an association list. Assigning to a key that is
  present replaces the value where it sits; assigning to a new key appends it.
\<close>

type_synonym ('k, 'v) pydict = "('k \<times> 'v) list"

fun dict_set :: "'k \<Rightarrow> 'v \<Rightarrow> ('k, 'v) pydict \<Rightarrow> ('k, 'v) pydict" where
  "dict_set k v [] = [(k, v)]"
| "dict_set k v ((k', v') # d) =
     (if k' = k then (k, v) # d else (k', v') # dict_set k v d)"

definition dict_get :: "('k, 'v) pydict \<Rightarrow> 'k \<Rightarrow> 'v option" where
  "dict_get d k = map_of d k"

definition dict_keys :: "('k, 'v) pydict \<Rightarrow> 'k list" where
  "dict_keys d = map fst d"

definition dict_values :: "('k, 'v) pydict \<Rightarrow> 'v list" where
  "dict_values d = map snd d"

text \<open>
  A dictionary comprehension \<^verbatim>\<open>{k: v for ...}\<close> assigns the generated pairs one after
  the other to a dictionary that starts empty.
\<close>

definition dict_comp :: "('k \<times> 'v) list \<Rightarrow> ('k, 'v) pydict" where
  "dict_comp kvs = fold (\<lambda>(k, v) d. dict_set k v d) kvs []"

section \<open>The data model of \<^verbatim>\<open>shared_view_accumulator.py\<close>\<close>

type_synonym CameraId = int
type_synonym MultiFrameNumber = int

text \<open>
  Modelled from the spec: the class \<^verbatim>\<open>CalibrationCameraNodeOutputData\<close> that the
  accumulator imports from \<^verbatim>\<open>calibration_camera_node_output_data\<close> is not among the
  sources. The spec describes an observation as a \<^verbatim>\<open>can_see_target: bool\<close> together
  with the detected geometry and a timestamp; the accumulator reads only the flag, so the
  rest is the payload \<open>data\<close> of an arbitrary type.
\<close>

record 'd CalibrationCameraNodeOutputData =
  can_see_target :: bool
  data :: 'd

record 'd TargetViewByCamera =
  multi_frame_number :: MultiFrameNumber
  views_by_camera :: "(CameraId, 'd CalibrationCameraNodeOutputData) pydict"

definition cameras_that_can_see_target :: "'d TargetViewByCamera \<Rightarrow> CameraId list" where
  "cameras_that_can_see_target tv =
     map fst (filter (\<lambda>(camera_id, camera_node_output). can_see_target camera_node_output)
                     (views_by_camera tv))"

definition multiple_cameras_can_see_target :: "'d TargetViewByCamera \<Rightarrow> bool" where
  "multiple_cameras_can_see_target tv \<longleftrightarrow> length (cameras_that_can_see_target tv) > 1"

record 'd SharedViewAccumulator =
  camera_ids :: "CameraId list"
  shared_views_by_frame :: "(MultiFrameNumber, 'd TargetViewByCamera) pydict"

definition create :: "CameraId list \<Rightarrow> 'd SharedViewAccumulator" where
  "create cams = \<lparr>camera_ids = cams, shared_views_by_frame = []\<rparr>"

section \<open>The operations of the accumulator\<close>

datatype error = KeyError CameraId

text \<open>
  \<^verbatim>\<open>shared_view_count_by_camera[camera_id] += 1\<close> reads the key first, which raises
  \<^verbatim>\<open>KeyError\<close> when it is absent, and then assigns the incremented value.
\<close>

definition increment :: "CameraId \<Rightarrow> (CameraId, int) pydict \<Rightarrow> error + (CameraId, int) pydict" where
  "increment camera_id counts =
     (case dict_get counts camera_id of
        None \<Rightarrow> Inl (KeyError camera_id)
      | Some n \<Rightarrow> Inr (dict_set camera_id (n + 1) counts))"

text \<open>The inner loop, over the cameras of one frame that see the target.\<close>

fun count_cameras :: "CameraId list \<Rightarrow> (CameraId, int) pydict \<Rightarrow> error + (CameraId, int) pydict" where
  "count_cameras [] counts = Inr counts"
| "count_cameras (camera_id # rest) counts =
     (case increment camera_id counts of
        Inl e \<Rightarrow> Inl e
      | Inr counts' \<Rightarrow> count_cameras rest counts')"

text \<open>The outer loop, over the stored frames.\<close>

fun count_frames :: "'d TargetViewByCamera list \<Rightarrow> (CameraId, int) pydict \<Rightarrow> error + (CameraId, int) pydict" where
  "count_frames [] counts = Inr counts"
| "count_frames (shared_view_by_frame # rest) counts =
     (if multiple_cameras_can_see_target shared_view_by_frame
      then (case count_cameras (cameras_that_can_see_target shared_view_by_frame) counts of
              Inl e \<Rightarrow> Inl e
            | Inr counts' \<Rightarrow> count_frames rest counts')
      else count_frames rest counts)"

definition shared_view_count_by_camera :: "'d SharedViewAccumulator \<Rightarrow> error + (CameraId, int) pydict" where
  "shared_view_count_by_camera acc =
     count_frames (dict_values (shared_views_by_frame acc))
                  (dict_comp (map (\<lambda>camera_id. (camera_id, 0)) (camera_ids acc)))"

definition shared_target_views :: "'d SharedViewAccumulator \<Rightarrow> 'd TargetViewByCamera list" where
  "shared_target_views acc =
     filter multiple_cameras_can_see_target (dict_values (shared_views_by_frame acc))"

definition receive_camera_node_output ::
  "MultiFrameNumber \<Rightarrow> (CameraId, 'd CalibrationCameraNodeOutputData) pydict
     \<Rightarrow> 'd SharedViewAccumulator \<Rightarrow> 'd SharedViewAccumulator" where
  "receive_camera_node_output n camera_node_output acc =
     (let cameras_that_can_see =
            dict_comp (filter (\<lambda>(camera_id, out). can_see_target out) camera_node_output)
      in acc\<lparr>shared_views_by_frame :=
               dict_set n \<lparr>multi_frame_number = n, views_by_camera = cameras_that_can_see\<rparr>
                        (shared_views_by_frame acc)\<rparr>)"

definition all_cameras_have_min_shared_views :: "'d SharedViewAccumulator \<Rightarrow> int \<Rightarrow> error + bool" where
  "all_cameras_have_min_shared_views acc min_shared_views =
     (case shared_view_count_by_camera acc of
        Inl e \<Rightarrow> Inl e
      | Inr counts \<Rightarrow> Inr (list_all (\<lambda>shared_views. shared_views \<ge> min_shared_views)
                                   (dict_values counts)))"

text \<open>
  A session delivers one dictionary of camera outputs per call; \<open>deliver_all\<close> runs the
  calls of a list of deliveries in the order of the list.
\<close>

definition deliver_all ::
  "'d SharedViewAccumulator
     \<Rightarrow> (MultiFrameNumber \<times> (CameraId, 'd CalibrationCameraNodeOutputData) pydict) list
     \<Rightarrow> 'd SharedViewAccumulator" where
  "deliver_all acc deliveries =
     fold (\<lambda>(n, camera_node_output) a. receive_camera_node_output n camera_node_output a)
          deliveries acc"

section \<open>The camera node of \<^verbatim>\<open>calibration_camera_node.py\<close>\<close>

text \<open>
  \<^verbatim>\<open>CalibrationCameraNode._run\<close> is the body of one camera's process. What the process
  reads from outside in one turn of its loop is a \<open>tick\<close>: the shutdown event as
  \<^verbatim>\<open>shutdown_event.is_set()\<close> finds it, \<^verbatim>\<open>camera_ring_shm.new_frame_available\<close>, and what
  \<^verbatim>\<open>camera_ring_shm.retrieve_frame()\<close> yields (the image, or the exception it raises).
  The detector \<^verbatim>\<open>charuco_tracker.process_image\<close> is a parameter that returns an
  observation or raises. The sleep of a millisecond has no counterpart. What precedes the
  \<^verbatim>\<open>try\<close> block (the shared memory is recreated, the tracker created) is taken to have
  succeeded, and \<^verbatim>\<open>output_queue.put\<close> to append to the queue.
\<close>

record ('e, 'img) tick =
  shutdown_is_set :: bool
  new_frame_available :: bool
  retrieve_frame :: "'e + 'img"

text \<open>The dataclass of this module that wraps an observation for the output queue.\<close>

datatype 'obs node_output = NodeOutputData 'obs

datatype 'e log_entry = Exception_logged CameraId 'e | Trace_shutting_down CameraId

text \<open>
  The \<^verbatim>\<open>while\<close> loop inside \<^verbatim>\<open>try\<close>. It may run forever, so it runs on a finite script
  of ticks: \<open>None\<close> says that the script ended with the loop still running, \<open>Some (None, q)\<close>
  that the loop left through its condition, and \<open>Some (Some e, q)\<close> that the exception \<open>e\<close>
  left the loop body; \<open>q\<close> is what was put on the output queue.
\<close>

fun run_loop ::
  "('img \<Rightarrow> 'e + 'obs) \<Rightarrow> ('e, 'img) tick list \<Rightarrow> 'obs node_output list
     \<Rightarrow> ('e option \<times> 'obs node_output list) option" where
  "run_loop process_image [] q = None"
| "run_loop process_image (t # ts) q =
     (if shutdown_is_set t then Some (None, q)
      else if new_frame_available t then
        (case retrieve_frame t of
           Inl e \<Rightarrow> Some (Some e, q)
         | Inr img \<Rightarrow>
             (case process_image img of
                Inl e \<Rightarrow> Some (Some e, q)
              | Inr observation \<Rightarrow> run_loop process_image ts (q @ [NodeOutputData observation])))
      else run_loop process_image ts q)"

text \<open>
  How the process ends: \<open>raised\<close> is the exception that \<^verbatim>\<open>except Exception\<close> logs and
  raises again, \<open>shutdown_event\<close> and \<open>shm_closed\<close> are what the \<^verbatim>\<open>finally\<close> block
  leaves behind.
\<close>

record ('e, 'obs) node_end =
  raised :: "'e option"
  output_queue :: "'obs node_output list"
  node_log :: "'e log_entry list"
  shutdown_event :: bool
  shm_closed :: bool

definition run ::
  "CameraId \<Rightarrow> ('img \<Rightarrow> 'e + 'obs) \<Rightarrow> ('e, 'img) tick list \<Rightarrow> ('e, 'obs) node_end option" where
  "run camera_id process_image ticks =
     (case run_loop process_image ticks [] of
        None \<Rightarrow> None
      | Some (exc, q) \<Rightarrow>
          Some \<lparr>raised = exc,
                output_queue = q,
                node_log = (case exc of None \<Rightarrow> [] | Some e \<Rightarrow> [Exception_logged camera_id e])
                           @ [Trace_shutting_down camera_id],
                shutdown_event = True,
                shm_closed = True\<rparr>)"

section \<open>The pose of \<^verbatim>\<open>positional_6dof.py\<close>\<close>

text \<open>
  \<^verbatim>\<open>Positional6DoF\<close> declares the two fields \<^verbatim>\<open>translation\<close> and \<^verbatim>\<open>rotation\<close>. Python
  resolves an attribute of an instance by its name; \<open>getattr\<close> is that lookup for the
  array-valued attributes of an instance. The class has no other attribute of its own
  than the property below, and the members it inherits from the model base class have
  other names, so every other name raises \<^verbatim>\<open>AttributeError\<close>.
\<close>

datatype pose_error = AttributeError string | ValueError | Cv2Error

record 'a Positional6DoF =
  translation :: "'a list"
  rotation :: "'a list"

definition getattr :: "'a Positional6DoF \<Rightarrow> string \<Rightarrow> pose_error + 'a list" where
  "getattr self name =
     (if name = ''translation'' then Inr (translation self)
      else if name = ''rotation'' then Inr (rotation self)
      else Inl (AttributeError name))"

text \<open>
  The two slice assignments into the 4x4 array of zeros need a 3x3 block and three
  numbers; numpy raises \<^verbatim>\<open>ValueError\<close> for any other shape.
\<close>

definition set_rotation_block :: "'a list list \<Rightarrow> 'a list list \<Rightarrow> pose_error + 'a list list" where
  "set_rotation_block m r =
     (if length r = 3 \<and> list_all (\<lambda>row. length row = 3) r
      then Inr (map (\<lambda>(row, r_row). r_row @ drop 3 row) (zip (take 3 m) r) @ drop 3 m)
      else Inl ValueError)"

definition set_translation_column :: "'a list list \<Rightarrow> 'a list \<Rightarrow> pose_error + 'a list list" where
  "set_translation_column m t =
     (if length t = 3
      then Inr (map (\<lambda>(row, x). (take 3 row) @ [x] @ drop 4 row) (zip (take 3 m) t) @ drop 3 m)
      else Inl ValueError)"

definition set_corner :: "'a::one list list \<Rightarrow> 'a list list" where
  "set_corner m = take 3 m @ map (\<lambda>row. take 3 row @ [1] @ drop 4 row) (take 1 (drop 3 m)) @ drop 4 m"

text \<open>
  The property, with \<^verbatim>\<open>cv2.Rodrigues\<close> as a parameter. The arguments of a call are
  evaluated before the call, so \<^verbatim>\<open>self.rotation_vector\<close> is looked up first.
\<close>

definition transformation_matrix ::
  "('a list \<Rightarrow> pose_error + 'a list list) \<Rightarrow> 'a::{zero,one} Positional6DoF
     \<Rightarrow> pose_error + 'a list list" where
  "transformation_matrix Rodrigues self =
     (let m = replicate 4 (replicate 4 0) in
      case getattr self ''rotation_vector'' of
        Inl e \<Rightarrow> Inl e
      | Inr rotation_vector \<Rightarrow>
          (case Rodrigues rotation_vector of
             Inl e \<Rightarrow> Inl e
           | Inr r \<Rightarrow>
               (case set_rotation_block m r of
                  Inl e \<Rightarrow> Inl e
                | Inr m1 \<Rightarrow>
                    (case getattr self ''translation_vector'' of
                       Inl e \<Rightarrow> Inl e
                     | Inr translation_vector \<Rightarrow>
                         (case set_translation_column m1 translation_vector of
                            Inl e \<Rightarrow> Inl e
                          | Inr m2 \<Rightarrow> Inr (set_corner m2))))))"

section \<open>The invariant of the stored frames\<close>

text \<open>
  What every accumulator that \<open>create\<close> and \<open>receive_camera_node_output\<close> build satisfies:
  the frame map has each frame number once, each entry sits under its own frame number,
  and its views have each camera once and only outputs that see the target.
\<close>

definition stored_ok :: "'d SharedViewAccumulator \<Rightarrow> bool" where
  "stored_ok acc \<longleftrightarrow>
     distinct (map fst (shared_views_by_frame acc)) \<and>
     (\<forall>(n, tv) \<in> set (shared_views_by_frame acc).
        multi_frame_number tv = n \<and> distinct (map fst (views_by_camera tv)) \<and>
        (\<forall>(c, out) \<in> set (views_by_camera tv). can_see_target out))"

text \<open>
  The number the counting loops add for a camera: over the frames in which more than one
  camera sees the target, how often the camera is listed among those that see it.
\<close>

definition shared_views_of :: "'d TargetViewByCamera list \<Rightarrow> CameraId \<Rightarrow> int" where
  "shared_views_of tvs c =
     (\<Sum>tv\<leftarrow>tvs. if multiple_cameras_can_see_target tv
                 then int (count_list (cameras_that_can_see_target tv) c) else 0)"

section \<open>Properties of dictionaries\<close>

lemma map_of_dict_set: "map_of (dict_set k v d) = (map_of d)(k \<mapsto> v)"
  by (induction d) (auto simp: fun_eq_iff)

lemma dict_set_new: "k \<notin> fst ` set d \<Longrightarrow> dict_set k v d = d @ [(k, v)]"
  by (induction d) auto

lemma keys_dict_set_old: "k \<in> fst ` set d \<Longrightarrow> map fst (dict_set k v d) = map fst d"
  by (induction d) force+

lemma keys_dict_set:
  "map fst (dict_set k v d) = (if k \<in> fst ` set d then map fst d else map fst d @ [k])"
  by (simp add: keys_dict_set_old dict_set_new)

lemma distinct_dict_set: "distinct (map fst d) \<Longrightarrow> distinct (map fst (dict_set k v d))"
  by (simp add: keys_dict_set)

lemma dict_set_idem: "dict_set k v (dict_set k v d) = dict_set k v d"
  by (induction d) auto

lemma set_dict_set: "set (dict_set k v d) \<subseteq> insert (k, v) (set d)"
  by (induction d) (auto split: if_splits)

lemma fold_dict_set_distinct:
  "distinct (map fst d) \<Longrightarrow> distinct (map fst (fold (\<lambda>(k, v) d. dict_set k v d) kvs d))"
  by (induction kvs arbitrary: d) (auto simp: distinct_dict_set)

lemma distinct_dict_comp: "distinct (map fst (dict_comp kvs))"
  by (simp add: dict_comp_def fold_dict_set_distinct)

lemma fold_dict_set_subset:
  "set (fold (\<lambda>(k, v) d. dict_set k v d) kvs d) \<subseteq> set kvs \<union> set d"
proof (induction kvs arbitrary: d)
  case Nil
  then show ?case by simp
next
  case (Cons kv kvs)
  obtain k v where kv: "kv = (k, v)" by (cases kv)
  have "set (fold (\<lambda>(k, v) d. dict_set k v d) kvs (dict_set k v d)) \<subseteq> set kvs \<union> set (dict_set k v d)"
    by (rule Cons.IH)
  also have "\<dots> \<subseteq> set kvs \<union> insert (k, v) (set d)"
    using set_dict_set [of k v d] by blast
  finally show ?case by (auto simp: kv)
qed

lemma set_dict_comp: "set (dict_comp kvs) \<subseteq> set kvs"
  using fold_dict_set_subset [of kvs "[]"] by (simp add: dict_comp_def)

lemma fold_dict_set_append:
  "distinct (map fst (d @ kvs)) \<Longrightarrow> fold (\<lambda>(k, v) d. dict_set k v d) kvs d = d @ kvs"
proof (induction kvs arbitrary: d)
  case Nil
  then show ?case by simp
next
  case (Cons kv kvs)
  obtain k v where kv: "kv = (k, v)" by (cases kv)
  from Cons.prems have new: "k \<notin> fst ` set d" by (auto simp: kv)
  from Cons.prems have "distinct (map fst ((d @ [(k, v)]) @ kvs))" by (simp add: kv)
  then have "fold (\<lambda>(k, v) d. dict_set k v d) kvs (d @ [(k, v)]) = (d @ [(k, v)]) @ kvs"
    by (rule Cons.IH)
  then show ?case by (simp add: kv dict_set_new [OF new])
qed

lemma dict_comp_distinct: "distinct (map fst kvs) \<Longrightarrow> dict_comp kvs = kvs"
  using fold_dict_set_append [of "[]" kvs] by (simp add: dict_comp_def)

section \<open>Properties of the accumulator\<close>

lemma dict_set_overwrite: "dict_set k v (dict_set k w d) = dict_set k v d"
  by (induction d) auto

lemma dict_set_same: "map_of d k = Some v \<Longrightarrow> dict_set k v d = d"
  by (induction d) (auto split: if_splits)

lemma frames_receive:
  "shared_views_by_frame (receive_camera_node_output n out acc) =
     dict_set n \<lparr>multi_frame_number = n,
                 views_by_camera = dict_comp (filter (\<lambda>(camera_id, out). can_see_target out) out)\<rparr>
              (shared_views_by_frame acc)"
  by (simp add: receive_camera_node_output_def)

lemma camera_ids_receive: "camera_ids (receive_camera_node_output n out acc) = camera_ids acc"
  by (simp add: receive_camera_node_output_def)

lemma deliver_all_Nil: "deliver_all acc [] = acc"
  by (simp add: deliver_all_def)

lemma deliver_all_Cons:
  "deliver_all acc ((n, out) # ds) = deliver_all (receive_camera_node_output n out acc) ds"
  by (simp add: deliver_all_def)

lemma deliver_all_append:
  "deliver_all acc (ds @ es) = deliver_all (deliver_all acc ds) es"
  by (simp add: deliver_all_def)

lemma camera_ids_deliver_all: "camera_ids (deliver_all acc ds) = camera_ids acc"
  by (induction ds arbitrary: acc) (auto simp: deliver_all_Nil deliver_all_Cons camera_ids_receive)

lemma map_of_frames_other:
  "n \<notin> fst ` set ds \<Longrightarrow>
     map_of (shared_views_by_frame (deliver_all acc ds)) n = map_of (shared_views_by_frame acc) n"
proof (induction ds arbitrary: acc)
  case Nil
  then show ?case by (simp add: deliver_all_Nil)
next
  case (Cons d ds)
  obtain m out where d: "d = (m, out)" by (cases d)
  from Cons.prems have "m \<noteq> n" and "n \<notin> fst ` set ds" by (auto simp: d)
  then show ?case
    by (simp add: d deliver_all_Cons Cons.IH frames_receive map_of_dict_set)
qed

lemma receive_twice:
  "receive_camera_node_output n out (receive_camera_node_output n out' acc) =
     receive_camera_node_output n out acc"
  by (simp add: receive_camera_node_output_def dict_set_overwrite)

lemma receive_stored:
  assumes "map_of (shared_views_by_frame acc) n =
             Some \<lparr>multi_frame_number = n,
                   views_by_camera = dict_comp (filter (\<lambda>(camera_id, out). can_see_target out) out)\<rparr>"
  shows "receive_camera_node_output n out acc = acc"
  using assms by (simp add: receive_camera_node_output_def dict_set_same)

text \<open>
  Claim C7. Delivering the same camera outputs for the same frame number once more
  changes nothing: the accumulator, and with it the frame map and the shared-view counts,
  is the one after the first delivery, also when deliveries for other frame numbers came
  in between. The last write wins: a delivery for a frame number makes the accumulator
  what it would be had no earlier delivery for that number happened just before.
\<close>

theorem repeated_delivery_idempotent:
  "receive_camera_node_output n out (receive_camera_node_output n out acc)
     = receive_camera_node_output n out acc
   \<and> shared_view_count_by_camera (receive_camera_node_output n out (receive_camera_node_output n out acc))
     = shared_view_count_by_camera (receive_camera_node_output n out acc)
   \<and> (n \<notin> fst ` set ds \<longrightarrow>
        receive_camera_node_output n out (deliver_all (receive_camera_node_output n out acc) ds)
          = deliver_all (receive_camera_node_output n out acc) ds)
   \<and> receive_camera_node_output n out (receive_camera_node_output n out' acc)
     = receive_camera_node_output n out acc"
proof -
  have "receive_camera_node_output n out (deliver_all (receive_camera_node_output n out acc) ds)
          = deliver_all (receive_camera_node_output n out acc) ds" if "n \<notin> fst ` set ds"
    by (rule receive_stored) (simp add: map_of_frames_other [OF that] frames_receive map_of_dict_set)
  then show ?thesis by (simp add: receive_twice)
qed

theorem repeated_delivery_idempotent_witness:
  "(1::int) \<notin> fst ` set [(2::int, [(0::int, \<lparr>can_see_target = True, data = ()\<rparr>)])]
   \<and> receive_camera_node_output 1 [(0, \<lparr>can_see_target = True, data = ()\<rparr>)]
        (deliver_all (receive_camera_node_output 1 [(0, \<lparr>can_see_target = True, data = ()\<rparr>)] (create [0]))
                     [(2, [(0, \<lparr>can_see_target = True, data = ()\<rparr>)])])
     = deliver_all (receive_camera_node_output 1 [(0, \<lparr>can_see_target = True, data = ()\<rparr>)] (create [0]))
                   [(2, [(0, \<lparr>can_see_target = True, data = ()\<rparr>)])]"
  using repeated_delivery_idempotent [of 1 "[(0, \<lparr>can_see_target = True, data = ()\<rparr>)]" "create [0]"
      "[(2, [(0, \<lparr>can_see_target = True, data = ()\<rparr>)])]"]
  by simp

lemma stored_ok_create: "stored_ok (create cams)"
  by (simp add: stored_ok_def create_def)

lemma stored_ok_receive:
  assumes "stored_ok acc"
  shows "stored_ok (receive_camera_node_output n out acc)"
proof -
  let ?v = "dict_comp (filter (\<lambda>(camera_id, out). can_see_target out) out)"
  let ?tv = "\<lparr>multi_frame_number = n, views_by_camera = ?v\<rparr>"
  have "set ?v \<subseteq> set (filter (\<lambda>(camera_id, out). can_see_target out) out)"
    by (rule set_dict_comp)
  then have seen: "\<forall>(c, out) \<in> set ?v. can_see_target out" by auto
  have sub: "set (dict_set n ?tv (shared_views_by_frame acc))
               \<subseteq> insert (n, ?tv) (set (shared_views_by_frame acc))"
    by (rule set_dict_set)
  show ?thesis
    unfolding stored_ok_def frames_receive
  proof (intro conjI ballI)
    show "distinct (map fst (dict_set n ?tv (shared_views_by_frame acc)))"
      using assms by (simp add: stored_ok_def distinct_dict_set)
  next
    fix x assume "x \<in> set (dict_set n ?tv (shared_views_by_frame acc))"
    with sub have "x = (n, ?tv) \<or> x \<in> set (shared_views_by_frame acc)" by auto
    then show "case x of (n, tv) \<Rightarrow>
                 multi_frame_number tv = n \<and> distinct (map fst (views_by_camera tv)) \<and>
                 (\<forall>(c, out) \<in> set (views_by_camera tv). can_see_target out)"
    proof
      assume "x = (n, ?tv)"
      then show ?thesis using seen by (simp add: distinct_dict_comp)
    next
      assume "x \<in> set (shared_views_by_frame acc)"
      with assms show ?thesis unfolding stored_ok_def by blast
    qed
  qed
qed

lemma stored_ok_deliver_all: "stored_ok acc \<Longrightarrow> stored_ok (deliver_all acc ds)"
proof (induction ds arbitrary: acc)
  case Nil
  then show ?case by (simp add: deliver_all_Nil)
next
  case (Cons d ds)
  then show ?case by (cases d) (simp add: deliver_all_Cons stored_ok_receive)
qed

lemma cameras_all_seen:
  assumes "\<forall>(c, out) \<in> set (views_by_camera tv). can_see_target out"
  shows "cameras_that_can_see_target tv = dict_keys (views_by_camera tv)"
proof -
  have "filter (\<lambda>(camera_id, camera_node_output). can_see_target camera_node_output)
               (views_by_camera tv) = views_by_camera tv"
    using assms by (intro filter_True) auto
  then show ?thesis by (simp add: cameras_that_can_see_target_def dict_keys_def)
qed

text \<open>
  Claim C8. Every entry that deliveries store holds only outputs whose
  \<^verbatim>\<open>can_see_target\<close> flag is true, so its \<^verbatim>\<open>cameras_that_can_see_target\<close> is the list
  of all keys of its \<^verbatim>\<open>views_by_camera\<close>.
\<close>

theorem stored_views_see_target:
  assumes "tv \<in> set (dict_values (shared_views_by_frame (deliver_all (create cams) deliveries)))"
  shows "list_all can_see_target (dict_values (views_by_camera tv))
         \<and> cameras_that_can_see_target tv = dict_keys (views_by_camera tv)"
proof -
  have "stored_ok (deliver_all (create cams) deliveries)"
    by (simp add: stored_ok_deliver_all stored_ok_create)
  with assms have seen: "\<forall>(c, out) \<in> set (views_by_camera tv). can_see_target out"
    unfolding stored_ok_def dict_values_def by fastforce
  then have "list_all can_see_target (dict_values (views_by_camera tv))"
    by (auto simp: list_all_iff dict_values_def)
  with cameras_all_seen [OF seen] show ?thesis by simp
qed

theorem stored_views_see_target_witness:
  "\<lparr>multi_frame_number = 1, views_by_camera = [(0, \<lparr>can_see_target = True, data = ()\<rparr>)]\<rparr>
     \<in> set (dict_values (shared_views_by_frame (deliver_all (create [0, 1])
           [(1, [(0, \<lparr>can_see_target = True, data = ()\<rparr>), (1, \<lparr>can_see_target = False, data = ()\<rparr>)])])))
   \<and> list_all can_see_target (dict_values [(0::int, \<lparr>can_see_target = True, data = ()\<rparr>)])
   \<and> cameras_that_can_see_target
        \<lparr>multi_frame_number = 1, views_by_camera = [(0, \<lparr>can_see_target = True, data = ()\<rparr>)]\<rparr>
      = dict_keys [(0::int, \<lparr>can_see_target = True, data = ()\<rparr>)]"
proof -
  have stored: "\<lparr>multi_frame_number = 1, views_by_camera = [(0, \<lparr>can_see_target = True, data = ()\<rparr>)]\<rparr>
     \<in> set (dict_values (shared_views_by_frame (deliver_all (create [0, 1])
           [(1, [(0, \<lparr>can_see_target = True, data = ()\<rparr>), (1, \<lparr>can_see_target = False, data = ()\<rparr>)])])))"
    by (simp add: deliver_all_def receive_camera_node_output_def create_def dict_comp_def dict_values_def)
  from stored_views_see_target [OF stored] stored show ?thesis by simp
qed

text \<open>
  Claim C2, as amended. A call of \<^verbatim>\<open>receive_camera_node_output\<close> for the frame number
  \<open>n\<close> stores the filtered delivery as the entry of \<open>n\<close>, in place of whatever entry
  \<open>n\<close> had; the entry of every other frame number stays as it is, no frame number
  leaves the map, and when \<open>n\<close> is new its entry is appended to an unchanged map.
\<close>

theorem receive_replaces_entry:
  "dict_get (shared_views_by_frame (receive_camera_node_output n out acc)) n
     = Some \<lparr>multi_frame_number = n,
             views_by_camera = dict_comp (filter (\<lambda>(camera_id, out). can_see_target out) out)\<rparr>
   \<and> (m \<noteq> n \<longrightarrow> dict_get (shared_views_by_frame (receive_camera_node_output n out acc)) m
                    = dict_get (shared_views_by_frame acc) m)
   \<and> set (dict_keys (shared_views_by_frame acc))
       \<subseteq> set (dict_keys (shared_views_by_frame (receive_camera_node_output n out acc)))
   \<and> (n \<notin> set (dict_keys (shared_views_by_frame acc)) \<longrightarrow>
        shared_views_by_frame (receive_camera_node_output n out acc)
          = shared_views_by_frame acc
            @ [(n, \<lparr>multi_frame_number = n,
                    views_by_camera = dict_comp (filter (\<lambda>(camera_id, out). can_see_target out) out)\<rparr>)])"
  by (auto simp: frames_receive dict_get_def dict_keys_def map_of_dict_set keys_dict_set dict_set_new)

theorem receive_replaces_entry_witness:
  "(2::int) \<noteq> 1
   \<and> dict_get (shared_views_by_frame (receive_camera_node_output 1
         [(0, \<lparr>can_see_target = True, data = ()\<rparr>)]
         (receive_camera_node_output 2 [(1, \<lparr>can_see_target = True, data = ()\<rparr>)] (create [0, 1])))) 2
      = Some \<lparr>multi_frame_number = 2, views_by_camera = [(1, \<lparr>can_see_target = True, data = ()\<rparr>)]\<rparr>
   \<and> (1::int) \<notin> set (dict_keys (shared_views_by_frame
         (receive_camera_node_output 2 [(1, \<lparr>can_see_target = True, data = ()\<rparr>)] (create [0, 1]))))
   \<and> shared_views_by_frame (receive_camera_node_output 1
         [(0, \<lparr>can_see_target = True, data = ()\<rparr>)]
         (receive_camera_node_output 2 [(1, \<lparr>can_see_target = True, data = ()\<rparr>)] (create [0, 1])))
      = [(2, \<lparr>multi_frame_number = 2, views_by_camera = [(1, \<lparr>can_see_target = True, data = ()\<rparr>)]\<rparr>),
         (1, \<lparr>multi_frame_number = 1, views_by_camera = [(0, \<lparr>can_see_target = True, data = ()\<rparr>)]\<rparr>)]"
  using receive_replaces_entry [of 1 "[(0, \<lparr>can_see_target = True, data = ()\<rparr>)]"
      "receive_camera_node_output 2 [(1, \<lparr>can_see_target = True, data = ()\<rparr>)] (create [0, 1])" 2]
  by (simp add: receive_camera_node_output_def create_def dict_comp_def dict_get_def dict_keys_def)

text \<open>
  Claim C2 as stated fails: after both cameras were stored for frame 1, a second delivery
  for frame 1 that holds camera 0 alone removes the stored observation of camera 1.
\<close>

theorem stored_observation_removed:
  "shared_views_by_frame (receive_camera_node_output 1
       [(0, \<lparr>can_see_target = True, data = ()\<rparr>), (1, \<lparr>can_see_target = True, data = ()\<rparr>)]
       (create [0, 1]))
     = [(1, \<lparr>multi_frame_number = 1,
             views_by_camera = [(0, \<lparr>can_see_target = True, data = ()\<rparr>),
                                (1, \<lparr>can_see_target = True, data = ()\<rparr>)]\<rparr>)]
   \<and> shared_views_by_frame (receive_camera_node_output 1
       [(0, \<lparr>can_see_target = True, data = ()\<rparr>)]
       (receive_camera_node_output 1
          [(0, \<lparr>can_see_target = True, data = ()\<rparr>), (1, \<lparr>can_see_target = True, data = ()\<rparr>)]
          (create [0, 1])))
     = [(1, \<lparr>multi_frame_number = 1,
             views_by_camera = [(0, \<lparr>can_see_target = True, data = ()\<rparr>)]\<rparr>)]"
  by (simp add: receive_camera_node_output_def create_def dict_comp_def)

section \<open>Two sessions with three cameras\<close>

lemmas acc_defs = shared_view_count_by_camera_def all_cameras_have_min_shared_views_def
  deliver_all_def receive_camera_node_output_def create_def dict_comp_def dict_values_def
  cameras_that_can_see_target_def multiple_cameras_can_see_target_def increment_def dict_get_def
  shared_target_views_def

text \<open>
  Claim C5. Over three different cameras \<open>A\<close>, \<open>B\<close>, \<open>C\<close>, where \<open>A\<close> and \<open>B\<close> see the
  target in the frames 1, 2 and 3 and \<open>C\<close> sees it in none, the shared-view counts are
  \<open>A: 3\<close>, \<open>B: 3\<close>, \<open>C: 0\<close>, and not every camera has one shared view.
\<close>

theorem two_of_three_cameras_share:
  assumes "distinct [A, B, C]"
    and "acc = deliver_all (create [A, B, C])
           (map (\<lambda>n. (n, [(A, \<lparr>can_see_target = True, data = d A n\<rparr>),
                           (B, \<lparr>can_see_target = True, data = d B n\<rparr>),
                           (C, \<lparr>can_see_target = False, data = d C n\<rparr>)])) [1, 2, 3])"
  shows "shared_view_count_by_camera acc = Inr [(A, 3), (B, 3), (C, 0)]
         \<and> all_cameras_have_min_shared_views acc 1 = Inr False"
  using assms by (simp add: acc_defs)

theorem two_of_three_cameras_share_witness:
  "shared_view_count_by_camera
     (deliver_all (create [0, 1, 2])
        (map (\<lambda>n. (n, [(0, \<lparr>can_see_target = True, data = ()\<rparr>),
                        (1, \<lparr>can_see_target = True, data = ()\<rparr>),
                        (2, \<lparr>can_see_target = False, data = ()\<rparr>)])) [1, 2, 3]))
     = Inr [(0, 3), (1, 3), (2, 0)]
   \<and> all_cameras_have_min_shared_views
     (deliver_all (create [0, 1, 2])
        (map (\<lambda>n. (n, [(0, \<lparr>can_see_target = True, data = ()\<rparr>),
                        (1, \<lparr>can_see_target = True, data = ()\<rparr>),
                        (2, \<lparr>can_see_target = False, data = ()\<rparr>)])) [1, 2, 3])) 1
     = Inr False"
proof -
  have d: "distinct [0, 1, 2 :: CameraId]" by simp
  show ?thesis
    using two_of_three_cameras_share [of 0 1 2 _ "\<lambda>c n. ()", OF d refl] by simp
qed

text \<open>
  Claim C6. Over three different cameras, where just \<open>A\<close> and \<open>B\<close> see the target in the
  frames 1 and 2, just \<open>B\<close> and \<open>C\<close> in 3 and 4, and just \<open>A\<close> and \<open>C\<close> in 5 and 6,
  every camera has the shared-view count 4 and the threshold 2 is met, although each pair
  of cameras shares the target in two frames only.
\<close>

theorem pairwise_coverage_gap:
  assumes "distinct [A, B, C]"
    and "acc = deliver_all (create [A, B, C])
           (map (\<lambda>n. (n, [(A, \<lparr>can_see_target = True, data = d A n\<rparr>),
                           (B, \<lparr>can_see_target = True, data = d B n\<rparr>),
                           (C, \<lparr>can_see_target = False, data = d C n\<rparr>)])) [1, 2]
            @ map (\<lambda>n. (n, [(A, \<lparr>can_see_target = False, data = d A n\<rparr>),
                           (B, \<lparr>can_see_target = True, data = d B n\<rparr>),
                           (C, \<lparr>can_see_target = True, data = d C n\<rparr>)])) [3, 4]
            @ map (\<lambda>n. (n, [(A, \<lparr>can_see_target = True, data = d A n\<rparr>),
                           (B, \<lparr>can_see_target = False, data = d B n\<rparr>),
                           (C, \<lparr>can_see_target = True, data = d C n\<rparr>)])) [5, 6])"
  shows "shared_view_count_by_camera acc = Inr [(A, 4), (B, 4), (C, 4)]
         \<and> all_cameras_have_min_shared_views acc 2 = Inr True
         \<and> length (filter (\<lambda>tv. {A, B} \<subseteq> set (cameras_that_can_see_target tv))
                          (shared_target_views acc)) = 2
         \<and> length (filter (\<lambda>tv. {B, C} \<subseteq> set (cameras_that_can_see_target tv))
                          (shared_target_views acc)) = 2
         \<and> length (filter (\<lambda>tv. {A, C} \<subseteq> set (cameras_that_can_see_target tv))
                          (shared_target_views acc)) = 2"
proof -
  from assms(1) have ne: "A \<noteq> B" "A \<noteq> C" "B \<noteq> C" by auto
  have frames: "shared_views_by_frame acc =
    [(1, \<lparr>multi_frame_number = 1, views_by_camera =
           [(A, \<lparr>can_see_target = True, data = d A 1\<rparr>), (B, \<lparr>can_see_target = True, data = d B 1\<rparr>)]\<rparr>),
     (2, \<lparr>multi_frame_number = 2, views_by_camera =
           [(A, \<lparr>can_see_target = True, data = d A 2\<rparr>), (B, \<lparr>can_see_target = True, data = d B 2\<rparr>)]\<rparr>),
     (3, \<lparr>multi_frame_number = 3, views_by_camera =
           [(B, \<lparr>can_see_target = True, data = d B 3\<rparr>), (C, \<lparr>can_see_target = True, data = d C 3\<rparr>)]\<rparr>),
     (4, \<lparr>multi_frame_number = 4, views_by_camera =
           [(B, \<lparr>can_see_target = True, data = d B 4\<rparr>), (C, \<lparr>can_see_target = True, data = d C 4\<rparr>)]\<rparr>),
     (5, \<lparr>multi_frame_number = 5, views_by_camera =
           [(A, \<lparr>can_see_target = True, data = d A 5\<rparr>), (C, \<lparr>can_see_target = True, data = d C 5\<rparr>)]\<rparr>),
     (6, \<lparr>multi_frame_number = 6, views_by_camera =
           [(A, \<lparr>can_see_target = True, data = d A 6\<rparr>), (C, \<lparr>can_see_target = True, data = d C 6\<rparr>)]\<rparr>)]"
    using ne by (simp add: assms(2) deliver_all_def receive_camera_node_output_def create_def dict_comp_def)
  have ids: "camera_ids acc = [A, B, C]"
    by (simp add: assms(2) deliver_all_def receive_camera_node_output_def create_def)
  have count: "shared_view_count_by_camera acc = Inr [(A, 4), (B, 4), (C, 4)]"
    using ne by (simp add: shared_view_count_by_camera_def frames ids dict_values_def dict_comp_def
        cameras_that_can_see_target_def multiple_cameras_can_see_target_def increment_def dict_get_def)
  have enough: "all_cameras_have_min_shared_views acc 2 = Inr True"
    by (simp add: all_cameras_have_min_shared_views_def count dict_values_def)
  have views: "shared_target_views acc = dict_values (shared_views_by_frame acc)"
    by (simp add: shared_target_views_def frames dict_values_def
        cameras_that_can_see_target_def multiple_cameras_can_see_target_def)
  have cams: "\<And>n X Y x y. cameras_that_can_see_target
      \<lparr>multi_frame_number = n, views_by_camera =
          [(X, \<lparr>can_see_target = True, data = x\<rparr>), (Y, \<lparr>can_see_target = True, data = y\<rparr>)]\<rparr> = [X, Y]"
    by (simp add: cameras_that_can_see_target_def)
  have ab: "length (filter (\<lambda>tv. {A, B} \<subseteq> set (cameras_that_can_see_target tv))
                          (shared_target_views acc)) = 2"
    using ne by (simp add: views frames dict_values_def cams)
  have bc: "length (filter (\<lambda>tv. {B, C} \<subseteq> set (cameras_that_can_see_target tv))
                          (shared_target_views acc)) = 2"
    using ne by (simp add: views frames dict_values_def cams)
  have ac: "length (filter (\<lambda>tv. {A, C} \<subseteq> set (cameras_that_can_see_target tv))
                          (shared_target_views acc)) = 2"
    using ne by (simp add: views frames dict_values_def cams)
  from count enough ab bc ac show ?thesis by simp
qed

theorem pairwise_coverage_gap_witness:
  "shared_view_count_by_camera
     (deliver_all (create [0, 1, 2])
           (map (\<lambda>n. (n, [(0, \<lparr>can_see_target = True, data = ()\<rparr>),
                           (1, \<lparr>can_see_target = True, data = ()\<rparr>),
                           (2, \<lparr>can_see_target = False, data = ()\<rparr>)])) [1, 2]
            @ map (\<lambda>n. (n, [(0, \<lparr>can_see_target = False, data = ()\<rparr>),
                           (1, \<lparr>can_see_target = True, data = ()\<rparr>),
                           (2, \<lparr>can_see_target = True, data = ()\<rparr>)])) [3, 4]
            @ map (\<lambda>n. (n, [(0, \<lparr>can_see_target = True, data = ()\<rparr>),
                           (1, \<lparr>can_see_target = False, data = ()\<rparr>),
                           (2, \<lparr>can_see_target = True, data = ()\<rparr>)])) [5, 6]))
     = Inr [(0, 4), (1, 4), (2, 4)]
   \<and> all_cameras_have_min_shared_views
     (deliver_all (create [0, 1, 2])
           (map (\<lambda>n. (n, [(0, \<lparr>can_see_target = True, data = ()\<rparr>),
                           (1, \<lparr>can_see_target = True, data = ()\<rparr>),
                           (2, \<lparr>can_see_target = False, data = ()\<rparr>)])) [1, 2]
            @ map (\<lambda>n. (n, [(0, \<lparr>can_see_target = False, data = ()\<rparr>),
                           (1, \<lparr>can_see_target = True, data = ()\<rparr>),
                           (2, \<lparr>can_see_target = True, data = ()\<rparr>)])) [3, 4]
            @ map (\<lambda>n. (n, [(0, \<lparr>can_see_target = True, data = ()\<rparr>),
                           (1, \<lparr>can_see_target = False, data = ()\<rparr>),
                           (2, \<lparr>can_see_target = True, data = ()\<rparr>)])) [5, 6])) 2
     = Inr True"
proof -
  have d: "distinct [0, 1, 2 :: CameraId]" by simp
  show ?thesis
    using pairwise_coverage_gap [of 0 1 2 _ "\<lambda>c n. ()", OF d refl] by simp
qed

section \<open>The counting loops\<close>

lemma keys_set_dict_set: "fst ` set (dict_set k v d) = insert k (fst ` set d)"
proof -
  have "fst ` set (dict_set k v d) = set (map fst (dict_set k v d))" by simp
  also have "\<dots> = set (if k \<in> fst ` set d then map fst d else map fst d @ [k])"
    by (simp only: keys_dict_set)
  also have "\<dots> = insert k (fst ` set d)" by auto
  finally show ?thesis .
qed

lemma keys_fold_dict_set:
  "fst ` set (fold (\<lambda>(k, v) d. dict_set k v d) kvs d) = fst ` set kvs \<union> fst ` set d"
proof (induction kvs arbitrary: d)
  case Nil
  then show ?case by simp
next
  case (Cons kv kvs)
  obtain k v where kv: "kv = (k, v)" by (cases kv)
  show ?case by (simp add: kv Cons.IH keys_set_dict_set)
qed

lemma keys_dict_comp: "fst ` set (dict_comp kvs) = fst ` set kvs"
  using keys_fold_dict_set [of kvs "[]"] by (simp add: dict_comp_def)

lemma increment_present:
  "map_of d c = Some n \<Longrightarrow> increment c d = Inr (dict_set c (n + 1) d)"
  by (simp add: increment_def dict_get_def)

lemma increment_absent:
  assumes "c \<notin> fst ` set d"
  shows "increment c d = Inl (KeyError c)"
proof -
  from assms have "map_of d c = None" by (simp add: map_of_eq_None_iff)
  then show ?thesis by (simp add: increment_def dict_get_def)
qed

lemma present_value: "a \<in> fst ` set d \<Longrightarrow> \<exists>n. map_of d a = Some n"
  by (cases "map_of d a") (simp_all add: map_of_eq_None_iff)

lemma count_cameras_Inr:
  "set cs \<subseteq> fst ` set d \<Longrightarrow>
     \<exists>d'. count_cameras cs d = Inr d' \<and> map fst d' = map fst d \<and>
          (\<forall>c. map_of d' c = map_option (\<lambda>n. n + int (count_list cs c)) (map_of d c))"
proof (induction cs arbitrary: d)
  case Nil
  then show ?case by (simp add: option.map_ident)
next
  case (Cons a cs)
  from Cons.prems have a: "a \<in> fst ` set d" and cs: "set cs \<subseteq> fst ` set d" by auto
  from present_value [OF a] obtain n where n: "map_of d a = Some n" by blast
  let ?d1 = "dict_set a (n + 1) d"
  have keys1: "map fst ?d1 = map fst d" using a by (rule keys_dict_set_old)
  have "fst ` set ?d1 = fst ` set d" using a by (auto simp: keys_set_dict_set)
  with cs have "set cs \<subseteq> fst ` set ?d1" by simp
  from Cons.IH [OF this] obtain d' where d':
    "count_cameras cs ?d1 = Inr d'" "map fst d' = map fst ?d1"
    "\<forall>c. map_of d' c = map_option (\<lambda>m. m + int (count_list cs c)) (map_of ?d1 c)"
    by blast
  have "count_cameras (a # cs) d = Inr d'"
    by (simp add: increment_present [OF n] d'(1))
  moreover have "map fst d' = map fst d" using d'(2) keys1 by simp
  moreover have "map_of d' c = map_option (\<lambda>m. m + int (count_list (a # cs) c)) (map_of d c)" for c
    using d'(3) n by (cases "c = a") (auto simp: map_of_dict_set)
  ultimately show ?case by blast
qed

lemma count_cameras_Inl:
  "\<not> set cs \<subseteq> fst ` set d \<Longrightarrow>
     \<exists>c. c \<notin> fst ` set d \<and> count_cameras cs d = Inl (KeyError c)"
proof (induction cs arbitrary: d)
  case Nil
  then show ?case by simp
next
  case (Cons a cs)
  show ?case
  proof (cases "a \<in> fst ` set d")
    case False
    then have "count_cameras (a # cs) d = Inl (KeyError a)" by (simp add: increment_absent)
    with False show ?thesis by blast
  next
    case True
    from present_value [OF True] obtain n where n: "map_of d a = Some n" by blast
    let ?d1 = "dict_set a (n + 1) d"
    have keys1: "fst ` set ?d1 = fst ` set d" using True by (auto simp: keys_set_dict_set)
    from Cons.prems True have "\<not> set cs \<subseteq> fst ` set ?d1" by (simp add: keys1)
    from Cons.IH [OF this] obtain c where
      c: "c \<notin> fst ` set ?d1" "count_cameras cs ?d1 = Inl (KeyError c)" by blast
    have "count_cameras (a # cs) d = Inl (KeyError c)"
      by (simp add: increment_present [OF n] c(2))
    with c(1) keys1 show ?thesis by blast
  qed
qed

lemma count_frames_Inr:
  "(\<forall>tv\<in>set tvs. multiple_cameras_can_see_target tv \<longrightarrow>
       set (cameras_that_can_see_target tv) \<subseteq> fst ` set d) \<Longrightarrow>
     \<exists>d'. count_frames tvs d = Inr d' \<and> map fst d' = map fst d \<and>
          (\<forall>c. map_of d' c = map_option (\<lambda>n. n + shared_views_of tvs c) (map_of d c))"
proof (induction tvs arbitrary: d)
  case Nil
  then show ?case by (simp add: shared_views_of_def option.map_ident)
next
  case (Cons tv tvs)
  show ?case
  proof (cases "multiple_cameras_can_see_target tv")
    case False
    from Cons.prems have "\<forall>tv\<in>set tvs. multiple_cameras_can_see_target tv \<longrightarrow>
       set (cameras_that_can_see_target tv) \<subseteq> fst ` set d" by simp
    from Cons.IH [OF this] show ?thesis using False by (simp add: shared_views_of_def)
  next
    case True
    with Cons.prems have "set (cameras_that_can_see_target tv) \<subseteq> fst ` set d" by simp
    from count_cameras_Inr [OF this] obtain d1 where d1:
      "count_cameras (cameras_that_can_see_target tv) d = Inr d1" "map fst d1 = map fst d"
      "\<forall>c. map_of d1 c = map_option (\<lambda>n. n + int (count_list (cameras_that_can_see_target tv) c))
                                      (map_of d c)"
      by blast
    from d1(2) have keys1: "fst ` set d1 = fst ` set d" by (metis list.set_map)
    from Cons.prems have "\<forall>tv\<in>set tvs. multiple_cameras_can_see_target tv \<longrightarrow>
       set (cameras_that_can_see_target tv) \<subseteq> fst ` set d1" by (simp add: keys1)
    from Cons.IH [OF this] obtain d' where d':
      "count_frames tvs d1 = Inr d'" "map fst d' = map fst d1"
      "\<forall>c. map_of d' c = map_option (\<lambda>n. n + shared_views_of tvs c) (map_of d1 c)"
      by blast
    have "count_frames (tv # tvs) d = Inr d'" using True d1(1) d'(1) by simp
    moreover have "map fst d' = map fst d" using d'(2) d1(2) by simp
    moreover have "map_of d' c = map_option (\<lambda>n. n + shared_views_of (tv # tvs) c) (map_of d c)" for c
      using d'(3) d1(3) True
      by (cases "map_of d c") (simp_all add: shared_views_of_def)
    ultimately show ?thesis by blast
  qed
qed

lemma count_frames_Inl:
  "\<not> (\<forall>tv\<in>set tvs. multiple_cameras_can_see_target tv \<longrightarrow>
       set (cameras_that_can_see_target tv) \<subseteq> fst ` set d) \<Longrightarrow>
     \<exists>c. c \<notin> fst ` set d \<and> count_frames tvs d = Inl (KeyError c)"
proof (induction tvs arbitrary: d)
  case Nil
  then show ?case by simp
next
  case (Cons tv tvs)
  show ?case
  proof (cases "multiple_cameras_can_see_target tv")
    case False
    with Cons.prems have "\<not> (\<forall>tv\<in>set tvs. multiple_cameras_can_see_target tv \<longrightarrow>
       set (cameras_that_can_see_target tv) \<subseteq> fst ` set d)" by simp
    from Cons.IH [OF this] show ?thesis using False by simp
  next
    case True
    show ?thesis
    proof (cases "set (cameras_that_can_see_target tv) \<subseteq> fst ` set d")
      case False
      from count_cameras_Inl [OF this] obtain c where
        "c \<notin> fst ` set d" "count_cameras (cameras_that_can_see_target tv) d = Inl (KeyError c)"
        by blast
      then have "c \<notin> fst ` set d \<and> count_frames (tv # tvs) d = Inl (KeyError c)"
        using True by simp
      then show ?thesis by blast
    next
      case sub: True
      from count_cameras_Inr [OF this] obtain d1 where d1:
        "count_cameras (cameras_that_can_see_target tv) d = Inr d1" "map fst d1 = map fst d"
        by blast
      from d1(2) have keys1: "fst ` set d1 = fst ` set d" by (metis list.set_map)
      from Cons.prems sub True have "\<not> (\<forall>tv\<in>set tvs. multiple_cameras_can_see_target tv \<longrightarrow>
         set (cameras_that_can_see_target tv) \<subseteq> fst ` set d1)" by (simp add: keys1)
      from Cons.IH [OF this] obtain c where
        c: "c \<notin> fst ` set d1" "count_frames tvs d1 = Inl (KeyError c)" by blast
      have "count_frames (tv # tvs) d = Inl (KeyError c)" using True d1(1) c(2) by simp
      with c(1) keys1 show ?thesis by blast
    qed
  qed
qed

lemma initial_counts_keys:
  "fst ` set (dict_comp (map (\<lambda>camera_id. (camera_id, 0::int)) cams)) = set cams"
  by (simp add: keys_dict_comp image_image)

lemma initial_counts_lookup:
  "map_of (dict_comp (map (\<lambda>camera_id. (camera_id, 0::int)) cams)) c
     = (if c \<in> set cams then Some 0 else None)"
proof (cases "c \<in> set cams")
  case False
  then have "c \<notin> fst ` set (dict_comp (map (\<lambda>camera_id. (camera_id, 0::int)) cams))"
    by (simp add: initial_counts_keys)
  then have "map_of (dict_comp (map (\<lambda>camera_id. (camera_id, 0::int)) cams)) c = None"
    by (simp add: map_of_eq_None_iff)
  with False show ?thesis by simp
next
  case True
  then have "c \<in> fst ` set (dict_comp (map (\<lambda>camera_id. (camera_id, 0::int)) cams))"
    by (simp add: initial_counts_keys)
  from present_value [OF this] obtain n where
    n: "map_of (dict_comp (map (\<lambda>camera_id. (camera_id, 0::int)) cams)) c = Some n" by blast
  then have "(c, n) \<in> set (dict_comp (map (\<lambda>camera_id. (camera_id, 0::int)) cams))"
    by (rule map_of_SomeD)
  with set_dict_comp [of "map (\<lambda>camera_id. (camera_id, 0::int)) cams"]
  have "(c, n) \<in> set (map (\<lambda>camera_id. (camera_id, 0::int)) cams)" by blast
  then have "n = 0" by auto
  with n True show ?thesis by simp
qed

lemma count_raises:
  assumes "\<not> (\<forall>tv\<in>set (dict_values (shared_views_by_frame acc)).
               multiple_cameras_can_see_target tv \<longrightarrow>
               set (cameras_that_can_see_target tv) \<subseteq> set (camera_ids acc))"
  shows "\<exists>c. c \<notin> set (camera_ids acc) \<and> shared_view_count_by_camera acc = Inl (KeyError c)"
  using count_frames_Inl [of "dict_values (shared_views_by_frame acc)"
      "dict_comp (map (\<lambda>camera_id. (camera_id, 0)) (camera_ids acc))"] assms
  by (simp add: shared_view_count_by_camera_def initial_counts_keys)

lemma count_returns:
  assumes "\<forall>tv\<in>set (dict_values (shared_views_by_frame acc)).
               multiple_cameras_can_see_target tv \<longrightarrow>
               set (cameras_that_can_see_target tv) \<subseteq> set (camera_ids acc)"
  shows "\<exists>counts. shared_view_count_by_camera acc = Inr counts \<and>
           map fst counts = map fst (dict_comp (map (\<lambda>camera_id. (camera_id, 0::int)) (camera_ids acc))) \<and>
           (\<forall>c. map_of counts c =
                 (if c \<in> set (camera_ids acc)
                  then Some (shared_views_of (dict_values (shared_views_by_frame acc)) c)
                  else None))"
proof -
  let ?d = "dict_comp (map (\<lambda>camera_id. (camera_id, 0::int)) (camera_ids acc))"
  let ?tvs = "dict_values (shared_views_by_frame acc)"
  from assms have "\<forall>tv\<in>set ?tvs. multiple_cameras_can_see_target tv \<longrightarrow>
               set (cameras_that_can_see_target tv) \<subseteq> fst ` set ?d"
    by (simp add: initial_counts_keys)
  from count_frames_Inr [OF this] obtain d' where d':
    "count_frames ?tvs ?d = Inr d'" "map fst d' = map fst ?d"
    "\<forall>c. map_of d' c = map_option (\<lambda>n. n + shared_views_of ?tvs c) (map_of ?d c)"
    by blast
  have "map_of d' c = (if c \<in> set (camera_ids acc) then Some (shared_views_of ?tvs c) else None)" for c
    using d'(3) by (simp add: initial_counts_lookup)
  with d'(1,2) show ?thesis by (simp add: shared_view_count_by_camera_def)
qed

lemma stored_cameras:
  assumes "stored_ok acc" and "tv \<in> set (dict_values (shared_views_by_frame acc))"
  shows "cameras_that_can_see_target tv = dict_keys (views_by_camera tv)"
proof -
  from assms(2) obtain n where "(n, tv) \<in> set (shared_views_by_frame acc)"
    by (auto simp: dict_values_def)
  with assms(1) have "\<forall>(c, out) \<in> set (views_by_camera tv). can_see_target out"
    unfolding stored_ok_def by blast
  then show ?thesis by (rule cameras_all_seen)
qed

text \<open>
  Claim C9. After any deliveries, \<^verbatim>\<open>shared_view_count_by_camera\<close> raises a key error,
  for a camera that is not in \<^verbatim>\<open>camera_ids\<close>, whenever a stored entry in which more than
  one camera sees the target holds a camera that is not in \<^verbatim>\<open>camera_ids\<close>; when every
  camera of every stored entry is in \<^verbatim>\<open>camera_ids\<close>, it returns the counts.
\<close>

theorem count_partial_on_unknown_camera:
  assumes "acc = deliver_all (create cams) deliveries"
  shows "((\<exists>tv\<in>set (dict_values (shared_views_by_frame acc)).
             multiple_cameras_can_see_target tv \<and>
             \<not> set (dict_keys (views_by_camera tv)) \<subseteq> set (camera_ids acc))
          \<longrightarrow> (\<exists>c. c \<notin> set (camera_ids acc) \<and> shared_view_count_by_camera acc = Inl (KeyError c)))
       \<and> ((\<forall>tv\<in>set (dict_values (shared_views_by_frame acc)).
             set (dict_keys (views_by_camera tv)) \<subseteq> set (camera_ids acc))
          \<longrightarrow> (\<exists>counts. shared_view_count_by_camera acc = Inr counts))"
proof (intro conjI impI)
  have ok: "stored_ok acc"
    unfolding assms by (intro stored_ok_deliver_all stored_ok_create)
  {
    assume "\<exists>tv\<in>set (dict_values (shared_views_by_frame acc)).
             multiple_cameras_can_see_target tv \<and>
             \<not> set (dict_keys (views_by_camera tv)) \<subseteq> set (camera_ids acc)"
    then obtain tv where tv: "tv \<in> set (dict_values (shared_views_by_frame acc))"
      "multiple_cameras_can_see_target tv"
      "\<not> set (dict_keys (views_by_camera tv)) \<subseteq> set (camera_ids acc)" by blast
    from tv(3) stored_cameras [OF ok tv(1)]
    have "\<not> set (cameras_that_can_see_target tv) \<subseteq> set (camera_ids acc)" by simp
    with tv(1,2) have "\<not> (\<forall>tv\<in>set (dict_values (shared_views_by_frame acc)).
               multiple_cameras_can_see_target tv \<longrightarrow>
               set (cameras_that_can_see_target tv) \<subseteq> set (camera_ids acc))" by blast
    then show "\<exists>c. c \<notin> set (camera_ids acc) \<and> shared_view_count_by_camera acc = Inl (KeyError c)"
      by (rule count_raises)
  }
  {
    assume known: "\<forall>tv\<in>set (dict_values (shared_views_by_frame acc)).
             set (dict_keys (views_by_camera tv)) \<subseteq> set (camera_ids acc)"
    have "\<forall>tv\<in>set (dict_values (shared_views_by_frame acc)).
               multiple_cameras_can_see_target tv \<longrightarrow>
               set (cameras_that_can_see_target tv) \<subseteq> set (camera_ids acc)"
    proof (intro ballI impI)
      fix tv assume tv: "tv \<in> set (dict_values (shared_views_by_frame acc))"
      with known have "set (dict_keys (views_by_camera tv)) \<subseteq> set (camera_ids acc)" by blast
      with stored_cameras [OF ok tv]
      show "set (cameras_that_can_see_target tv) \<subseteq> set (camera_ids acc)" by simp
    qed
    from count_returns [OF this]
    show "\<exists>counts. shared_view_count_by_camera acc = Inr counts" by blast
  }
qed

theorem count_partial_on_unknown_camera_witness:
  "(\<exists>c. c \<notin> set (camera_ids (deliver_all (create [0])
            [(1, [(0, \<lparr>can_see_target = True, data = ()\<rparr>), (5, \<lparr>can_see_target = True, data = ()\<rparr>)])]))
        \<and> shared_view_count_by_camera (deliver_all (create [0])
            [(1, [(0, \<lparr>can_see_target = True, data = ()\<rparr>), (5, \<lparr>can_see_target = True, data = ()\<rparr>)])])
          = Inl (KeyError c))
   \<and> (\<exists>counts. shared_view_count_by_camera (deliver_all (create [0, 1])
            [(1, [(0, \<lparr>can_see_target = True, data = ()\<rparr>), (1, \<lparr>can_see_target = True, data = ()\<rparr>)])])
          = Inr counts)"
proof
  let ?bad = "deliver_all (create [0])
     [(1, [(0, \<lparr>can_see_target = True, data = ()\<rparr>), (5, \<lparr>can_see_target = True, data = ()\<rparr>)])]"
  have frames: "shared_views_by_frame ?bad =
      [(1, \<lparr>multi_frame_number = 1, views_by_camera =
             [(0, \<lparr>can_see_target = True, data = ()\<rparr>), (5, \<lparr>can_see_target = True, data = ()\<rparr>)]\<rparr>)]"
    by (simp add: deliver_all_def receive_camera_node_output_def create_def dict_comp_def)
  have ids: "camera_ids ?bad = [0]"
    by (simp add: deliver_all_def receive_camera_node_output_def create_def)
  have "\<exists>tv\<in>set (dict_values (shared_views_by_frame ?bad)).
          multiple_cameras_can_see_target tv \<and>
          \<not> set (dict_keys (views_by_camera tv)) \<subseteq> set (camera_ids ?bad)"
    by (simp add: frames ids dict_values_def dict_keys_def multiple_cameras_can_see_target_def
        cameras_that_can_see_target_def)
  with count_partial_on_unknown_camera [OF refl, of "[0]"
      "[(1, [(0, \<lparr>can_see_target = True, data = ()\<rparr>), (5, \<lparr>can_see_target = True, data = ()\<rparr>)])]"]
  show "\<exists>c. c \<notin> set (camera_ids ?bad) \<and> shared_view_count_by_camera ?bad = Inl (KeyError c)"
    by blast
next
  let ?good = "deliver_all (create [0, 1])
     [(1, [(0, \<lparr>can_see_target = True, data = ()\<rparr>), (1, \<lparr>can_see_target = True, data = ()\<rparr>)])]"
  have frames: "shared_views_by_frame ?good =
      [(1, \<lparr>multi_frame_number = 1, views_by_camera =
             [(0, \<lparr>can_see_target = True, data = ()\<rparr>), (1, \<lparr>can_see_target = True, data = ()\<rparr>)]\<rparr>)]"
    by (simp add: deliver_all_def receive_camera_node_output_def create_def dict_comp_def)
  have ids: "camera_ids ?good = [0, 1]"
    by (simp add: deliver_all_def receive_camera_node_output_def create_def)
  have "\<forall>tv\<in>set (dict_values (shared_views_by_frame ?good)).
          set (dict_keys (views_by_camera tv)) \<subseteq> set (camera_ids ?good)"
    by (simp add: frames ids dict_values_def dict_keys_def)
  with count_partial_on_unknown_camera [OF refl, of "[0, 1]"
      "[(1, [(0, \<lparr>can_see_target = True, data = ()\<rparr>), (1, \<lparr>can_see_target = True, data = ()\<rparr>)])]"]
  show "\<exists>counts. shared_view_count_by_camera ?good = Inr counts"
    by blast
qed

section \<open>The order of the deliveries\<close>

lemma alist_rebuild:
  "distinct (map fst xs) \<Longrightarrow> map (\<lambda>k. (k, the (map_of xs k))) (map fst xs) = xs"
proof (induction xs)
  case Nil
  then show ?case by simp
next
  case (Cons x xs)
  obtain k v where x: "x = (k, v)" by (cases x)
  from Cons.prems have new: "k \<notin> fst ` set xs" and dist: "distinct (map fst xs)"
    by (auto simp: x)
  have "map (\<lambda>k'. (k', the (map_of ((k, v) # xs) k'))) (map fst xs)
          = map (\<lambda>k'. (k', the (map_of xs k'))) (map fst xs)"
    using new by (intro map_cong) auto
  with Cons.IH [OF dist] show ?case by (simp add: x)
qed

lemma alist_eqI:
  assumes "distinct (map fst xs)" and "map fst xs = map fst ys" and "map_of xs = map_of ys"
  shows "xs = ys"
proof -
  from assms(1,2) have "distinct (map fst ys)" by simp
  from alist_rebuild [OF this] have "ys = map (\<lambda>k. (k, the (map_of ys k))) (map fst ys)" by simp
  also have "\<dots> = map (\<lambda>k. (k, the (map_of xs k))) (map fst xs)" by (simp add: assms(2,3))
  also have "\<dots> = xs" by (rule alist_rebuild [OF assms(1)])
  finally show ?thesis by simp
qed

lemma distinct_frames_deliver_all:
  "distinct (map fst (shared_views_by_frame acc)) \<Longrightarrow>
     distinct (map fst (shared_views_by_frame (deliver_all acc ds)))"
proof (induction ds arbitrary: acc)
  case Nil
  then show ?case by (simp add: deliver_all_Nil)
next
  case (Cons d ds)
  obtain n out where d: "d = (n, out)" by (cases d)
  from Cons.prems have "distinct (map fst (shared_views_by_frame (receive_camera_node_output n out acc)))"
    by (simp add: frames_receive distinct_dict_set)
  from Cons.IH [OF this] show ?case by (simp add: d deliver_all_Cons)
qed

lemma map_of_frames_deliver_all:
  "map_of (shared_views_by_frame (deliver_all acc ds))
     = map_of (shared_views_by_frame acc)
       ++ map_of (rev (map (\<lambda>(n, out). (n, \<lparr>multi_frame_number = n,
            views_by_camera = dict_comp (filter (\<lambda>(camera_id, out). can_see_target out) out)\<rparr>)) ds))"
proof (induction ds arbitrary: acc)
  case Nil
  then show ?case by (simp add: deliver_all_Nil)
next
  case (Cons d ds)
  obtain n out where d: "d = (n, out)" by (cases d)
  show ?case
    by (simp add: d deliver_all_Cons Cons.IH frames_receive map_of_dict_set map_add_Some_iff
        fun_eq_iff map_add_def split: option.splits)
qed

lemma map_of_permuted:
  fixes f :: "'a \<times> 'b \<Rightarrow> 'a \<times> 'c"
  assumes "distinct (map fst xs)" and "mset ys = mset xs"
    and f: "\<And>x. fst (f x) = fst x"
  shows "map_of (rev (map f ys)) = map_of (rev (map f xs))"
proof -
  have comp: "fst \<circ> f = fst" by (rule ext) (simp add: f)
  from assms(2) have "mset (map fst ys) = mset (map fst xs)" by simp
  with assms(1) have dy: "distinct (map fst ys)" by (metis mset_eq_imp_distinct_iff)
  have keys: "map fst (rev (map f zs)) = rev (map fst zs)" for zs
    by (simp add: rev_map comp)
  have "distinct (map fst (rev (map f xs)))" "distinct (map fst (rev (map f ys)))"
    using assms(1) dy by (simp_all only: keys distinct_rev)
  moreover have "set (rev (map f ys)) = set (rev (map f xs))"
    using mset_eq_setD [OF assms(2)] by simp
  ultimately show ?thesis by (simp add: map_of_inject_set)
qed

lemma values_mset_eqI:
  assumes "distinct (map fst xs)" and "distinct (map fst ys)" and "map_of xs = map_of ys"
  shows "mset (map snd xs) = mset (map snd ys)"
proof -
  from assms have "set xs = set ys" by (simp add: map_of_inject_set)
  moreover from assms(1,2) have "distinct xs" "distinct ys" by (auto simp: distinct_map)
  ultimately have "mset xs = mset ys" by (simp add: set_eq_iff_mset_eq_distinct)
  then show ?thesis by simp
qed

lemma shared_views_of_mset:
  assumes "mset tvs = mset tvs'"
  shows "shared_views_of tvs c = shared_views_of tvs' c"
proof -
  let ?f = "\<lambda>tv. if multiple_cameras_can_see_target tv
                 then int (count_list (cameras_that_can_see_target tv) c) else 0"
  have "sum_list (map ?f tvs) = sum_mset (mset (map ?f tvs))" by (rule sum_mset_sum_list [symmetric])
  also have "\<dots> = sum_mset (image_mset ?f (mset tvs))" by simp
  also have "\<dots> = sum_mset (image_mset ?f (mset tvs'))" by (simp add: assms)
  also have "\<dots> = sum_mset (mset (map ?f tvs'))" by simp
  also have "\<dots> = sum_list (map ?f tvs')" by (rule sum_mset_sum_list)
  finally show ?thesis by (simp add: shared_views_of_def)
qed

lemma count_depends_on_values:
  assumes ids: "camera_ids a = camera_ids b"
    and vals: "mset (dict_values (shared_views_by_frame a)) = mset (dict_values (shared_views_by_frame b))"
  shows "isl (shared_view_count_by_camera a) = isl (shared_view_count_by_camera b)
         \<and> (\<forall>counts. (shared_view_count_by_camera a = Inr counts)
                     = (shared_view_count_by_camera b = Inr counts))"
proof (cases "\<forall>tv\<in>set (dict_values (shared_views_by_frame a)).
               multiple_cameras_can_see_target tv \<longrightarrow>
               set (cameras_that_can_see_target tv) \<subseteq> set (camera_ids a)")
  case True
  from mset_eq_setD [OF vals] True ids
  have Tb: "\<forall>tv\<in>set (dict_values (shared_views_by_frame b)).
               multiple_cameras_can_see_target tv \<longrightarrow>
               set (cameras_that_can_see_target tv) \<subseteq> set (camera_ids b)" by simp
  let ?d = "dict_comp (map (\<lambda>camera_id. (camera_id, 0::int)) (camera_ids a))"
  from count_returns [OF True] obtain ca where ca:
    "shared_view_count_by_camera a = Inr ca" "map fst ca = map fst ?d"
    "\<forall>c. map_of ca c = (if c \<in> set (camera_ids a)
            then Some (shared_views_of (dict_values (shared_views_by_frame a)) c) else None)"
    by blast
  from count_returns [OF Tb] obtain cb where cb:
    "shared_view_count_by_camera b = Inr cb" "map fst cb = map fst ?d"
    "\<forall>c. map_of cb c = (if c \<in> set (camera_ids a)
            then Some (shared_views_of (dict_values (shared_views_by_frame b)) c) else None)"
    by (auto simp: ids)
  have "map_of ca = map_of cb"
    using ca(3) cb(3) shared_views_of_mset [OF vals] by (simp add: fun_eq_iff)
  moreover have "distinct (map fst ca)" by (simp add: ca(2) distinct_dict_comp)
  moreover have "map fst ca = map fst cb" by (simp add: ca(2) cb(2))
  ultimately have "ca = cb" by (intro alist_eqI)
  with ca(1) cb(1) show ?thesis by simp
next
  case False
  with mset_eq_setD [OF vals] ids
  have Fb: "\<not> (\<forall>tv\<in>set (dict_values (shared_views_by_frame b)).
               multiple_cameras_can_see_target tv \<longrightarrow>
               set (cameras_that_can_see_target tv) \<subseteq> set (camera_ids b))" by simp
  from count_raises [OF False] count_raises [OF Fb] show ?thesis by auto
qed

text \<open>
  Claim C1. Deliveries with different frame numbers may arrive in any order: for two
  orders of the same deliveries, \<^verbatim>\<open>shared_view_count_by_camera\<close> returns the same
  dictionary of counts, and it raises for the one order exactly when it raises for the
  other. The accumulator they arrive at is any one whose frame map is a dictionary.
\<close>

theorem delivery_order_independent:
  assumes "distinct (map fst deliveries)" and "mset deliveries' = mset deliveries"
    and "distinct (dict_keys (shared_views_by_frame acc))"
  shows "isl (shared_view_count_by_camera (deliver_all acc deliveries'))
           = isl (shared_view_count_by_camera (deliver_all acc deliveries))
         \<and> (\<forall>counts. (shared_view_count_by_camera (deliver_all acc deliveries') = Inr counts)
                     = (shared_view_count_by_camera (deliver_all acc deliveries) = Inr counts))"
proof (rule count_depends_on_values)
  show "camera_ids (deliver_all acc deliveries') = camera_ids (deliver_all acc deliveries)"
    by (simp add: camera_ids_deliver_all)
next
  let ?store = "\<lambda>(n, out). (n, \<lparr>multi_frame_number = n,
      views_by_camera = dict_comp (filter (\<lambda>(camera_id, out). can_see_target out) out)\<rparr>)"
  have keys: "distinct (map fst (shared_views_by_frame acc))"
    using assms(3) by (simp add: dict_keys_def)
  have "\<And>x. fst (?store x) = fst x" by (simp add: split_beta)
  with assms(1,2) have "map_of (rev (map ?store deliveries')) = map_of (rev (map ?store deliveries))"
    by (intro map_of_permuted)
  then have "map_of (shared_views_by_frame (deliver_all acc deliveries'))
           = map_of (shared_views_by_frame (deliver_all acc deliveries))"
    by (simp add: map_of_frames_deliver_all)
  with distinct_frames_deliver_all [OF keys] distinct_frames_deliver_all [OF keys]
  have "mset (map snd (shared_views_by_frame (deliver_all acc deliveries')))
      = mset (map snd (shared_views_by_frame (deliver_all acc deliveries)))"
    by (intro values_mset_eqI)
  then show "mset (dict_values (shared_views_by_frame (deliver_all acc deliveries')))
      = mset (dict_values (shared_views_by_frame (deliver_all acc deliveries)))"
    by (simp add: dict_values_def)
qed

theorem delivery_order_independent_witness:
  "isl (shared_view_count_by_camera (deliver_all (create [0, 1])
          [(2, [(0, \<lparr>can_see_target = True, data = ()\<rparr>), (1, \<lparr>can_see_target = False, data = ()\<rparr>)]),
           (1, [(0, \<lparr>can_see_target = True, data = ()\<rparr>), (1, \<lparr>can_see_target = True, data = ()\<rparr>)])]))
     = isl (shared_view_count_by_camera (deliver_all (create [0, 1])
          [(1, [(0, \<lparr>can_see_target = True, data = ()\<rparr>), (1, \<lparr>can_see_target = True, data = ()\<rparr>)]),
           (2, [(0, \<lparr>can_see_target = True, data = ()\<rparr>), (1, \<lparr>can_see_target = False, data = ()\<rparr>)])]))
   \<and> (\<forall>counts. (shared_view_count_by_camera (deliver_all (create [0, 1])
          [(2, [(0, \<lparr>can_see_target = True, data = ()\<rparr>), (1, \<lparr>can_see_target = False, data = ()\<rparr>)]),
           (1, [(0, \<lparr>can_see_target = True, data = ()\<rparr>), (1, \<lparr>can_see_target = True, data = ()\<rparr>)])])
            = Inr counts)
        = (shared_view_count_by_camera (deliver_all (create [0, 1])
          [(1, [(0, \<lparr>can_see_target = True, data = ()\<rparr>), (1, \<lparr>can_see_target = True, data = ()\<rparr>)]),
           (2, [(0, \<lparr>can_see_target = True, data = ()\<rparr>), (1, \<lparr>can_see_target = False, data = ()\<rparr>)])])
            = Inr counts))"
proof (rule delivery_order_independent)
  show "distinct (map fst
          [(1::int, [(0::int, \<lparr>can_see_target = True, data = ()\<rparr>), (1, \<lparr>can_see_target = True, data = ()\<rparr>)]),
           (2, [(0, \<lparr>can_see_target = True, data = ()\<rparr>), (1, \<lparr>can_see_target = False, data = ()\<rparr>)])])"
    by simp
  show "mset [(2::int, [(0::int, \<lparr>can_see_target = True, data = ()\<rparr>), (1, \<lparr>can_see_target = False, data = ()\<rparr>)]),
           (1, [(0, \<lparr>can_see_target = True, data = ()\<rparr>), (1, \<lparr>can_see_target = True, data = ()\<rparr>)])]
      = mset [(1, [(0, \<lparr>can_see_target = True, data = ()\<rparr>), (1, \<lparr>can_see_target = True, data = ()\<rparr>)]),
           (2, [(0, \<lparr>can_see_target = True, data = ()\<rparr>), (1, \<lparr>can_see_target = False, data = ()\<rparr>)])]"
    by (simp add: add_mset_commute)
  show "distinct (dict_keys (shared_views_by_frame (create [0, 1] :: unit SharedViewAccumulator)))"
    by (simp add: create_def dict_keys_def)
qed

section \<open>The order of the shared views\<close>

lemma remdups_drop_repeated: "n \<in> set ys \<Longrightarrow> remdups (xs @ n # ys) = remdups (xs @ ys)"
  by (induction xs) auto

lemma sorted_wrt_remdups: "sorted_wrt P xs \<Longrightarrow> sorted_wrt P (remdups xs)"
  by (induction xs) auto

lemma sorted_first_occurrences:
  fixes xs :: "int list"
  assumes "sorted xs"
  shows "sorted (rev (remdups (rev xs)))"
proof -
  from assms have "sorted_wrt (\<lambda>x y. y \<le> x) (rev xs)" by (simp add: sorted_wrt_rev)
  then have "sorted_wrt (\<lambda>x y. y \<le> x) (remdups (rev xs))" by (rule sorted_wrt_remdups)
  then show ?thesis by (simp add: sorted_wrt_rev)
qed

lemma keys_deliver_all:
  "distinct (map fst (shared_views_by_frame acc)) \<Longrightarrow>
     map fst (shared_views_by_frame (deliver_all acc ds))
       = rev (remdups (rev (map fst (shared_views_by_frame acc) @ map fst ds)))"
proof (induction ds arbitrary: acc)
  case Nil
  then show ?case by (simp add: deliver_all_Nil distinct_remdups_id)
next
  case (Cons d ds)
  obtain n out where d: "d = (n, out)" by (cases d)
  let ?acc = "receive_camera_node_output n out acc"
  let ?ks = "map fst (shared_views_by_frame acc)"
  have keys: "map fst (shared_views_by_frame ?acc) = (if n \<in> set ?ks then ?ks else ?ks @ [n])"
    by (simp add: frames_receive keys_dict_set)
  from Cons.prems have "distinct (map fst (shared_views_by_frame ?acc))"
    by (simp add: frames_receive distinct_dict_set)
  from Cons.IH [OF this]
  have step: "map fst (shared_views_by_frame (deliver_all ?acc ds))
          = rev (remdups (rev (map fst (shared_views_by_frame ?acc) @ map fst ds)))" .
  show ?case
  proof (cases "n \<in> set ?ks")
    case True
    then have "n \<in> set (rev ?ks)" by simp
    from remdups_drop_repeated [OF this, of "rev (map fst ds)"]
    have "remdups (rev (?ks @ n # map fst ds)) = remdups (rev (?ks @ map fst ds))" by simp
    with step keys True show ?thesis by (simp add: d deliver_all_Cons)
  next
    case False
    with step keys show ?thesis by (simp add: d deliver_all_Cons)
  qed
qed

lemma numbers_of_filtered_values:
  assumes "distinct (map fst F)" and "\<forall>(n, tv)\<in>set F. multi_frame_number tv = n"
  shows "map multi_frame_number (filter P (map snd F))
           = filter (\<lambda>n. case map_of F n of None \<Rightarrow> False | Some tv \<Rightarrow> P tv) (map fst F)"
  using assms
proof (induction F)
  case Nil
  then show ?case by simp
next
  case (Cons x F)
  obtain k v where x: "x = (k, v)" by (cases x)
  from Cons.prems have new: "k \<notin> fst ` set F" and dist: "distinct (map fst F)"
    and kv: "multi_frame_number v = k" and rest: "\<forall>(n, tv)\<in>set F. multi_frame_number tv = n"
    by (auto simp: x)
  have "filter (\<lambda>n. case map_of ((k, v) # F) n of None \<Rightarrow> False | Some tv \<Rightarrow> P tv) (map fst F)
          = filter (\<lambda>n. case map_of F n of None \<Rightarrow> False | Some tv \<Rightarrow> P tv) (map fst F)"
    using new by (intro filter_cong) auto
  with Cons.IH [OF dist rest] kv show ?case by (simp add: x)
qed

text \<open>
  Claim C4, as amended. After any deliveries, \<^verbatim>\<open>shared_target_views\<close> returns exactly
  the stored entries in which more than one camera sees the target, in the order in which
  their frame numbers were first delivered, which is the order of the frame map; the
  result is in ascending frame-number order when the deliveries arrive in that order.
\<close>

theorem shared_target_views_in_arrival_order:
  assumes "acc = deliver_all (create cams) deliveries"
  shows "set (shared_target_views acc)
           = {tv \<in> set (dict_values (shared_views_by_frame acc)). multiple_cameras_can_see_target tv}
         \<and> map multi_frame_number (shared_target_views acc)
           = filter (\<lambda>n. case dict_get (shared_views_by_frame acc) n of
                           None \<Rightarrow> False | Some tv \<Rightarrow> multiple_cameras_can_see_target tv)
                    (rev (remdups (rev (map fst deliveries))))
         \<and> (sorted (map fst deliveries)
              \<longrightarrow> sorted (map multi_frame_number (shared_target_views acc)))"
proof -
  have ok: "stored_ok acc"
    unfolding assms by (intro stored_ok_deliver_all stored_ok_create)
  then have dist: "distinct (map fst (shared_views_by_frame acc))"
    and num: "\<forall>(n, tv)\<in>set (shared_views_by_frame acc). multi_frame_number tv = n"
    unfolding stored_ok_def by auto
  have "map fst (shared_views_by_frame acc) = rev (remdups (rev (map fst deliveries)))"
    unfolding assms using keys_deliver_all [of "create cams" deliveries]
    by (simp add: create_def)
  with numbers_of_filtered_values [OF dist num, of multiple_cameras_can_see_target]
  have order: "map multi_frame_number (shared_target_views acc)
           = filter (\<lambda>n. case dict_get (shared_views_by_frame acc) n of
                           None \<Rightarrow> False | Some tv \<Rightarrow> multiple_cameras_can_see_target tv)
                    (rev (remdups (rev (map fst deliveries))))"
    by (simp add: shared_target_views_def dict_values_def dict_get_def)
  have "sorted (map multi_frame_number (shared_target_views acc))" if "sorted (map fst deliveries)"
    unfolding order
    using sorted_filter [of "\<lambda>n. n" "rev (remdups (rev (map fst deliveries)))"]
      sorted_first_occurrences [OF that]
    by simp
  moreover have "set (shared_target_views acc)
           = {tv \<in> set (dict_values (shared_views_by_frame acc)). multiple_cameras_can_see_target tv}"
    by (auto simp: shared_target_views_def)
  ultimately show ?thesis using order by blast
qed

theorem shared_target_views_in_arrival_order_witness:
  "sorted (map multi_frame_number (shared_target_views (deliver_all (create [0, 1])
       [(1, [(0, \<lparr>can_see_target = True, data = ()\<rparr>), (1, \<lparr>can_see_target = True, data = ()\<rparr>)]),
        (2, [(0, \<lparr>can_see_target = True, data = ()\<rparr>), (1, \<lparr>can_see_target = True, data = ()\<rparr>)])])))"
proof -
  have "sorted (map fst
       [(1::int, [(0::int, \<lparr>can_see_target = True, data = ()\<rparr>), (1, \<lparr>can_see_target = True, data = ()\<rparr>)]),
        (2, [(0, \<lparr>can_see_target = True, data = ()\<rparr>), (1, \<lparr>can_see_target = True, data = ()\<rparr>)])])"
    by simp
  with shared_target_views_in_arrival_order [OF refl, of "[0, 1]"
       "[(1, [(0, \<lparr>can_see_target = True, data = ()\<rparr>), (1, \<lparr>can_see_target = True, data = ()\<rparr>)]),
         (2, [(0, \<lparr>can_see_target = True, data = ()\<rparr>), (1, \<lparr>can_see_target = True, data = ()\<rparr>)])]"]
  show ?thesis by blast
qed

text \<open>
  Claim C4 as stated fails: when frame 2 is delivered before frame 1, both seen by two
  cameras, the result lists frame 2 before frame 1.
\<close>

theorem shared_target_views_not_sorted:
  "map multi_frame_number (shared_target_views (deliver_all (create [0, 1])
       [(2, [(0, \<lparr>can_see_target = True, data = ()\<rparr>), (1, \<lparr>can_see_target = True, data = ()\<rparr>)]),
        (1, [(0, \<lparr>can_see_target = True, data = ()\<rparr>), (1, \<lparr>can_see_target = True, data = ()\<rparr>)])]))
     = [2, 1]
   \<and> \<not> sorted (map multi_frame_number (shared_target_views (deliver_all (create [0, 1])
       [(2, [(0, \<lparr>can_see_target = True, data = ()\<rparr>), (1, \<lparr>can_see_target = True, data = ()\<rparr>)]),
        (1, [(0, \<lparr>can_see_target = True, data = ()\<rparr>), (1, \<lparr>can_see_target = True, data = ()\<rparr>)])])))"
  by (simp add: shared_target_views_def deliver_all_def receive_camera_node_output_def create_def
      dict_comp_def dict_values_def multiple_cameras_can_see_target_def
      cameras_that_can_see_target_def)

section \<open>A detector failure in the camera node\<close>

lemma run_loop_prefix:
  assumes "\<forall>t\<in>set pre. \<not> shutdown_is_set t \<and>
             (new_frame_available t \<longrightarrow>
                (\<exists>img obs. retrieve_frame t = Inr img \<and> process_image img = Inr obs))"
  shows "\<exists>q'. run_loop process_image (pre @ ts) q = run_loop process_image ts (q @ q')
              \<and> length q' = length (filter new_frame_available pre)"
  using assms
proof (induction pre arbitrary: q)
  case Nil
  then show ?case by simp
next
  case (Cons t pre)
  from Cons.prems have pre: "\<forall>t\<in>set pre. \<not> shutdown_is_set t \<and>
             (new_frame_available t \<longrightarrow>
                (\<exists>img obs. retrieve_frame t = Inr img \<and> process_image img = Inr obs))"
    and t: "\<not> shutdown_is_set t"
      "new_frame_available t \<Longrightarrow> \<exists>img obs. retrieve_frame t = Inr img \<and> process_image img = Inr obs"
    by auto
  show ?case
  proof (cases "new_frame_available t")
    case True
    with t obtain img obs where io: "retrieve_frame t = Inr img" "process_image img = Inr obs"
      by blast
    from Cons.IH [OF pre, of "q @ [NodeOutputData obs]"] obtain q' where
      q': "run_loop process_image (pre @ ts) (q @ [NodeOutputData obs])
             = run_loop process_image ts ((q @ [NodeOutputData obs]) @ q')"
          "length q' = length (filter new_frame_available pre)"
      by blast
    have "run_loop process_image ((t # pre) @ ts) q
            = run_loop process_image ts (q @ (NodeOutputData obs # q'))"
      using t(1) True io q'(1) by simp
    moreover have "length (NodeOutputData obs # q') = length (filter new_frame_available (t # pre))"
      using True q'(2) by simp
    ultimately show ?thesis by blast
  next
    case False
    from Cons.IH [OF pre, of q] obtain q' where
      q': "run_loop process_image (pre @ ts) q = run_loop process_image ts (q @ q')"
          "length q' = length (filter new_frame_available pre)"
      by blast
    then show ?thesis using t(1) False by auto
  qed
qed

text \<open>
  Claim C3, as amended. When the detector raises \<open>e\<close> for a frame, after turns of the
  loop that went through, the node puts nothing on the queue for that frame and processes
  no later frame: the exception is logged and raised again, the shutdown event is set and
  the shared memory is closed. The queue holds one output for each frame before.
\<close>

theorem detector_failure_shuts_down:
  assumes "\<forall>t\<in>set pre. \<not> shutdown_is_set t \<and>
             (new_frame_available t \<longrightarrow>
                (\<exists>img obs. retrieve_frame t = Inr img \<and> process_image img = Inr obs))"
    and "\<not> shutdown_is_set t" and "new_frame_available t"
    and "retrieve_frame t = Inr img" and "process_image img = Inl e"
  shows "\<exists>q. run camera_id process_image (pre @ t # rest)
               = Some \<lparr>raised = Some e, output_queue = q,
                       node_log = [Exception_logged camera_id e, Trace_shutting_down camera_id],
                       shutdown_event = True, shm_closed = True\<rparr>
             \<and> length q = length (filter new_frame_available pre)"
proof -
  from run_loop_prefix [OF assms(1), of "t # rest" "[]"] obtain q where
    q: "run_loop process_image (pre @ t # rest) [] = run_loop process_image (t # rest) q"
       "length q = length (filter new_frame_available pre)"
    by auto
  have "run_loop process_image (t # rest) q = Some (Some e, q)"
    using assms(2-5) by simp
  with q show ?thesis by (simp add: run_def)
qed

theorem detector_failure_shuts_down_witness:
  "\<exists>q. run 0 (case_nat (Inl ''unreadable'') Inr)
         ([\<lparr>shutdown_is_set = False, new_frame_available = True, retrieve_frame = (Inr 1 :: string + nat)\<rparr>]
          @ \<lparr>shutdown_is_set = False, new_frame_available = True, retrieve_frame = Inr 0\<rparr>
          # [\<lparr>shutdown_is_set = False, new_frame_available = True, retrieve_frame = Inr 2\<rparr>])
       = Some \<lparr>raised = Some ''unreadable'', output_queue = (q :: nat node_output list),
               node_log = [Exception_logged 0 ''unreadable'', Trace_shutting_down 0],
               shutdown_event = True, shm_closed = True\<rparr>
     \<and> length q = length (filter new_frame_available
         [\<lparr>shutdown_is_set = False, new_frame_available = True, retrieve_frame = (Inr 1 :: string + nat)\<rparr>])"
proof -
  have pre: "\<forall>t\<in>set [\<lparr>shutdown_is_set = False, new_frame_available = True, retrieve_frame = (Inr 1 :: string + nat)\<rparr>].
       \<not> shutdown_is_set t \<and>
       (new_frame_available t \<longrightarrow>
          (\<exists>img obs. retrieve_frame t = Inr img \<and> case_nat (Inl ''unreadable'') Inr img = Inr (obs::nat)))"
    by simp
  have t: "\<not> shutdown_is_set \<lparr>shutdown_is_set = False, new_frame_available = True, retrieve_frame = (Inr 0 :: string + nat)\<rparr>"
    "new_frame_available \<lparr>shutdown_is_set = False, new_frame_available = True, retrieve_frame = (Inr 0 :: string + nat)\<rparr>"
    "retrieve_frame \<lparr>shutdown_is_set = False, new_frame_available = True, retrieve_frame = (Inr 0 :: string + nat)\<rparr> = Inr 0"
    "case_nat (Inl ''unreadable'') Inr (0::nat) = (Inl ''unreadable'' :: string + nat)"
    by simp_all
  show ?thesis
    by (rule detector_failure_shuts_down
          [where process_image = "case_nat (Inl ''unreadable'') Inr" and img = 0
             and e = "''unreadable''", OF pre t])
qed

text \<open>
  Claim C3 as stated fails: the detector raises for the first of two frames; the node
  ends with that exception, has put nothing on the queue for either frame, and has set the
  shutdown event of the session.
\<close>

theorem detector_failure_not_local:
  "run 0 (case_nat (Inl ''unreadable'') Inr)
       [\<lparr>shutdown_is_set = False, new_frame_available = True, retrieve_frame = Inr 0\<rparr>,
        \<lparr>shutdown_is_set = False, new_frame_available = True, retrieve_frame = Inr 1\<rparr>]
     = Some \<lparr>raised = Some ''unreadable'', output_queue = [],
             node_log = [Exception_logged 0 ''unreadable'', Trace_shutting_down 0],
             shutdown_event = True, shm_closed = True\<rparr>"
  by (simp add: run_def)

section \<open>The transformation matrix of a pose\<close>

text \<open>
  Claim C10. For every pose and whatever \<^verbatim>\<open>cv2.Rodrigues\<close> does, the property
  \<^verbatim>\<open>transformation_matrix\<close> raises the attribute error for \<^verbatim>\<open>rotation_vector\<close> and
  returns no matrix: the declared fields are \<^verbatim>\<open>rotation\<close> and \<^verbatim>\<open>translation\<close>.
\<close>

theorem transformation_matrix_raises:
  "transformation_matrix Rodrigues self = Inl (AttributeError ''rotation_vector'')"
  by (simp add: transformation_matrix_def getattr_def)

end
